theory Spec2Isabelle
  imports Complex_Main "HOL-Library.AList" "HOL-Library.Sublist"
begin

section \<open>Python containers\<close>

text \<open>
  A Python \<open>dict\<close> keeps its keys in insertion order, so it is an association list with
  distinct keys: \<open>d[k] = v\<close> is \<open>AList.update k v d\<close> (an existing key keeps its place, a new
  key goes to the end), \<open>d.get(k, default)\<close> is \<open>dict_get\<close> and never changes \<open>d\<close>.

  A \<open>defaultdict(list)\<close> differs from a \<open>dict\<close> in one method only: \<open>d[k]\<close> on a missing key
  stores the empty list under \<open>k\<close> before returning it (\<open>defaultdict_getitem\<close>).
  \<open>d[k].append(v)\<close> is then \<open>defaultdict_append\<close>.
\<close>

definition dict_get :: "('k \<times> 'v) list \<Rightarrow> 'k \<Rightarrow> 'v \<Rightarrow> 'v" where
  "dict_get d k dflt = (case map_of d k of None \<Rightarrow> dflt | Some v \<Rightarrow> v)"

definition defaultdict_getitem ::
  "('k \<times> 'v list) list \<Rightarrow> 'k \<Rightarrow> 'v list \<times> ('k \<times> 'v list) list" where
  "defaultdict_getitem d k =
     (case map_of d k of
        None \<Rightarrow> ([], AList.update k [] d)
      | Some v \<Rightarrow> (v, d))"

definition defaultdict_append :: "('k \<times> 'v list) list \<Rightarrow> 'k \<Rightarrow> 'v \<Rightarrow> ('k \<times> 'v list) list" where
  "defaultdict_append d k v =
     (let (old, d') = defaultdict_getitem d k in AList.update k (old @ [v]) d')"

section \<open>indexer.py: the inverted index\<close>

text \<open>
  A posting is the tuple \<open>(doc_id, frequency, positions)\<close>. Document metadata is a \<open>dict\<close>
  from field names to values that are \<open>None\<close> or a string (what \<open>Indexer.index_page\<close>
  stores). The keys of \<open>documents\<close> are Python objects: \<open>add_document\<close> stores under the
  integer \<open>doc_id\<close>, while a JSON object read back by \<open>json.load\<close> has string keys only.
\<close>

type_synonym posting = "int \<times> nat \<times> nat list"

datatype pyval = PyNone | PyStr string

type_synonym metadata = "(string \<times> pyval) list"

datatype dockey = IntKey int | StrKey string

record inverted_index =
  index :: "(string \<times> posting list) list"
  document_count :: nat
  documents :: "(dockey \<times> metadata) list"

definition init_index :: inverted_index where
  "init_index = \<lparr>index = [], document_count = 0, documents = []\<rparr>"

definition add_document :: "inverted_index \<Rightarrow> int \<Rightarrow> metadata \<Rightarrow> inverted_index" where
  "add_document s doc_id doc_metadata =
     s\<lparr>documents := AList.update (IntKey doc_id) doc_metadata (documents s),
       document_count := document_count s + 1\<rparr>"

text \<open>The first loop of \<open>index_terms\<close>: \<open>term_positions[term].append(position)\<close>.\<close>

fun build_positions ::
  "(string \<times> nat list) list \<Rightarrow> nat \<Rightarrow> string list \<Rightarrow> (string \<times> nat list) list" where
  "build_positions tp position [] = tp"
| "build_positions tp position (t # ts) =
     build_positions (defaultdict_append tp t position) (Suc position) ts"

text \<open>The second loop: one posting per entry of \<open>term_positions\<close>, appended to \<open>index[term]\<close>.\<close>

fun add_postings ::
  "int \<Rightarrow> (string \<times> nat list) list \<Rightarrow> (string \<times> posting list) list
     \<Rightarrow> (string \<times> posting list) list" where
  "add_postings doc_id [] idx = idx"
| "add_postings doc_id ((t, positions) # rest) idx =
     add_postings doc_id rest (defaultdict_append idx t (doc_id, length positions, positions))"

definition index_terms :: "inverted_index \<Rightarrow> int \<Rightarrow> string list \<Rightarrow> inverted_index" where
  "index_terms s doc_id terms =
     s\<lparr>index := add_postings doc_id (build_positions [] 0 terms) (index s)\<rparr>"

text \<open>
  \<open>get_postings\<close> is \<open>self.index.get(term, [])\<close>. As a method it is a state transformer: it
  returns the postings together with the index it leaves behind.
\<close>

definition get_postings :: "inverted_index \<Rightarrow> string \<Rightarrow> posting list \<times> inverted_index" where
  "get_postings s t = (dict_get (index s) t [], s)"

abbreviation postings_of :: "inverted_index \<Rightarrow> string \<Rightarrow> posting list" where
  "postings_of s t \<equiv> fst (get_postings s t)"

subsection \<open>Persistence: \<open>save_to_json\<close> and \<open>load_from_json\<close>\<close>

text \<open>
  \<open>str(i)\<close> for a Python \<open>int\<close>: decimal digits, with a leading minus sign when negative.
\<close>

definition digit_char :: "nat \<Rightarrow> char" where
  "digit_char n = ''0123456789'' ! (n mod 10)"

fun str_nat :: "nat \<Rightarrow> string" where
  "str_nat n = (if n < 10 then [digit_char n] else str_nat (n div 10) @ [digit_char n])"

declare str_nat.simps [simp del]

definition py_str :: "int \<Rightarrow> string" where
  "py_str i = (if i < 0 then CHR ''-'' # str_nat (nat (- i)) else str_nat (nat i))"

text \<open>
  The file written by \<open>json.dump\<close> is the JSON object
  \<open>{"documents": {...}, "index": {...}}\<close>. The keys of a JSON object are strings:
  \<open>json.dump\<close> writes an \<open>int\<close> key \<open>k\<close> of a \<open>dict\<close> as the string \<open>str(k)\<close>, and a string key
  as it is (\<open>json_key\<close>). The members of each object are kept in the order written.
  Metadata values (\<open>None\<close>, strings), integers, and lists of integers are written and read
  back unchanged; a posting tuple is written as a three-element array.
\<close>

fun json_key :: "dockey \<Rightarrow> string" where
  "json_key (IntKey i) = py_str i"
| "json_key (StrKey s) = s"

record json_file =
  file_documents :: "(string \<times> metadata) list"
  file_index :: "(string \<times> posting list) list"

definition save_to_json :: "inverted_index \<Rightarrow> json_file" where
  "save_to_json s =
     \<lparr>file_documents = map (\<lambda>(k, doc_metadata). (json_key k, doc_metadata)) (documents s),
      file_index =
        map (\<lambda>(t, postings). (t, map (\<lambda>(doc_id, freq, pos). (doc_id, freq, pos)) postings))
          (index s)\<rparr>"

text \<open>
  \<open>json.load\<close> turns a JSON object into a \<open>dict\<close> with string keys, entering the members in
  order (a repeated key keeps its first place and takes the last value).
\<close>

definition json_object :: "(string \<times> 'v) list \<Rightarrow> (string \<times> 'v) list" where
  "json_object members = fold (\<lambda>(k, v) d. AList.update k v d) members []"

text \<open>
  \<open>load_from_json\<close> reads into \<open>self\<close>. A file that cannot be opened or parsed (\<open>None\<close>) raises
  inside the \<open>try\<close> block; the exception is logged and the index stays as it was.
\<close>

definition load_from_json :: "inverted_index \<Rightarrow> json_file option \<Rightarrow> inverted_index" where
  "load_from_json s file =
     (case file of
        None \<Rightarrow> s
      | Some data \<Rightarrow>
          let docs = map (\<lambda>(k, doc_metadata). (StrKey k, doc_metadata))
                       (json_object (file_documents data))
          in s\<lparr>documents := docs,
               document_count := length docs,
               index := fold (\<lambda>(t, postings) idx.
                                AList.update t (map (\<lambda>(doc_id, freq, pos). (doc_id, freq, pos)) postings) idx)
                          (json_object (file_index data)) (index s)\<rparr>)"

text \<open>The operations of an index, to run a sequence of calls.\<close>

datatype index_op =
    AddDocument int metadata
  | IndexTerms int "string list"
  | GetPostings string

fun apply_index_op :: "inverted_index \<Rightarrow> index_op \<Rightarrow> inverted_index" where
  "apply_index_op s (AddDocument doc_id doc_metadata) = add_document s doc_id doc_metadata"
| "apply_index_op s (IndexTerms doc_id terms) = index_terms s doc_id terms"
| "apply_index_op s (GetPostings t) = snd (get_postings s t)"

definition run_index_ops :: "index_op list \<Rightarrow> inverted_index" where
  "run_index_ops ops = foldl apply_index_op init_index ops"

fun added_doc_ids :: "index_op list \<Rightarrow> int list" where
  "added_doc_ids [] = []"
| "added_doc_ids (AddDocument doc_id _ # ops) = doc_id # added_doc_ids ops"
| "added_doc_ids (_ # ops) = added_doc_ids ops"

section \<open>ranker.py: TF-IDF scoring\<close>

text \<open>
  Python floats are modelled as real numbers (\<open>math.log\<close> is \<open>ln\<close>, \<open>N / df\<close> is real
  division); rounding is not modelled. The ranker holds a reference to the index, so every
  method takes the current index as an argument, and returns the ranker with its updated
  \<open>idf_cache\<close>.
\<close>

record tfidf_ranker =
  boost_title :: real
  boost_heading :: real
  idf_cache :: "(string \<times> real) list"

definition init_ranker :: "real \<Rightarrow> real \<Rightarrow> tfidf_ranker" where
  "init_ranker bt bh = \<lparr>boost_title = bt, boost_heading = bh, idf_cache = []\<rparr>"

definition calculate_idf ::
  "tfidf_ranker \<Rightarrow> inverted_index \<Rightarrow> string \<Rightarrow> real \<times> tfidf_ranker" where
  "calculate_idf r ix t =
     (case map_of (idf_cache r) t of
        Some cached \<Rightarrow> (cached, r)
      | None \<Rightarrow>
          let postings = postings_of ix t in
          if postings = [] then (0, r)
          else
            let N = document_count ix; df = length postings in
            if df = 0 then (0, r)
            else
              let idf = (if N > 0 then ln (real N / real df) else 0)
              in (idf, r\<lparr>idf_cache := AList.update t idf (idf_cache r)\<rparr>))"

text \<open>The loop of \<open>calculate_tf\<close>: return at the first posting of the document.\<close>

fun tf_loop :: "posting list \<Rightarrow> int \<Rightarrow> real" where
  "tf_loop [] doc_id = 0"
| "tf_loop ((posting_doc_id, frequency, _) # postings) doc_id =
     (if posting_doc_id = doc_id then real frequency else tf_loop postings doc_id)"

definition calculate_tf :: "inverted_index \<Rightarrow> string \<Rightarrow> int \<Rightarrow> real" where
  "calculate_tf ix t doc_id = tf_loop (postings_of ix t) doc_id"

text \<open>
  \<open>str.lower()\<close> on ASCII letters, and the substring test \<open>needle in haystack\<close>.
\<close>

definition lower_char :: "char \<Rightarrow> char" where
  "lower_char c =
     (case map_of (zip ''ABCDEFGHIJKLMNOPQRSTUVWXYZ'' ''abcdefghijklmnopqrstuvwxyz'') c of
        None \<Rightarrow> c
      | Some l \<Rightarrow> l)"

definition lower :: "string \<Rightarrow> string" where
  "lower s = map lower_char s"

fun str_contains :: "string \<Rightarrow> string \<Rightarrow> bool" where
  "str_contains [] needle = (needle = [])"
| "str_contains (c # cs) needle = (prefix needle (c # cs) \<or> str_contains cs needle)"

text \<open>\<open>doc_metadata.get('title', '') or ''\<close>\<close>

definition title_or_empty :: "metadata \<Rightarrow> string" where
  "title_or_empty doc_metadata =
     (case dict_get doc_metadata ''title'' (PyStr '''') of PyNone \<Rightarrow> '''' | PyStr s \<Rightarrow> s)"

fun score_loop ::
  "tfidf_ranker \<Rightarrow> inverted_index \<Rightarrow> string list \<Rightarrow> int \<Rightarrow> metadata \<Rightarrow> real
     \<Rightarrow> real \<times> tfidf_ranker" where
  "score_loop r ix [] doc_id doc_metadata score = (score, r)"
| "score_loop r ix (t # ts) doc_id doc_metadata score =
     (let tf = calculate_tf ix t doc_id;
          (idf, r') = calculate_idf r ix t;
          tfidf = tf * idf;
          tfidf' = (if str_contains (lower (title_or_empty doc_metadata)) (lower t)
                    then tfidf * boost_title r' else tfidf)
      in score_loop r' ix ts doc_id doc_metadata (score + tfidf'))"

definition score_document ::
  "tfidf_ranker \<Rightarrow> inverted_index \<Rightarrow> string list \<Rightarrow> int \<Rightarrow> metadata \<Rightarrow> real \<times> tfidf_ranker" where
  "score_document r ix query_terms doc_id doc_metadata =
     score_loop r ix query_terms doc_id doc_metadata 0"

fun rank_loop ::
  "tfidf_ranker \<Rightarrow> inverted_index \<Rightarrow> string list \<Rightarrow> int list \<Rightarrow> (int \<times> real) list
     \<Rightarrow> (int \<times> real) list \<times> tfidf_ranker" where
  "rank_loop r ix query_terms [] scores = (scores, r)"
| "rank_loop r ix query_terms (doc_id # doc_ids) scores =
     (let doc_metadata = dict_get (documents ix) (IntKey doc_id) [];
          (score, r') = score_document r ix query_terms doc_id doc_metadata
      in rank_loop r' ix query_terms doc_ids
           (if score > 0 then scores @ [(doc_id, score)] else scores))"

text \<open>
  \<open>scores.sort(key=lambda x: x[1], reverse=True)\<close>: Python's sort is stable, also with
  \<open>reverse=True\<close> (entries with equal keys keep their order); \<open>sort_key\<close> on the negated
  score is the same permutation.
\<close>

definition rank_results ::
  "tfidf_ranker \<Rightarrow> inverted_index \<Rightarrow> string list \<Rightarrow> int list
     \<Rightarrow> (int \<times> real) list \<times> tfidf_ranker" where
  "rank_results r ix query_terms doc_ids =
     (let (scores, r') = rank_loop r ix query_terms doc_ids []
      in (sort_key (\<lambda>x. - snd x) scores, r'))"

text \<open>
  A Python \<open>set\<close> of document ids is represented by its elements in the order they were first
  added. Python does not define the order in which a \<open>set\<close> is iterated, so
  \<open>list(doc_ids_set)\<close> is \<open>iter_order\<close> applied to that representation: a parameter of
  \<open>search\<close>, of which only \<open>valid_iter_order\<close> is known.
\<close>

definition set_add :: "'a list \<Rightarrow> 'a \<Rightarrow> 'a list" where
  "set_add xs x = (if x \<in> set xs then xs else xs @ [x])"

definition candidate_doc_ids :: "inverted_index \<Rightarrow> string list \<Rightarrow> int list" where
  "candidate_doc_ids ix query_terms =
     fold (\<lambda>t acc. fold (\<lambda>(doc_id, _, _) acc'. set_add acc' doc_id) (postings_of ix t) acc)
       query_terms []"

definition valid_iter_order :: "(int list \<Rightarrow> int list) \<Rightarrow> bool" where
  "valid_iter_order iter_order =
     (\<forall>xs. distinct xs \<longrightarrow> distinct (iter_order xs) \<and> set (iter_order xs) = set xs)"

text \<open>The slice \<open>xs[:m]\<close>: a negative \<open>m\<close> counts from the end.\<close>

definition slice_to :: "'a list \<Rightarrow> int \<Rightarrow> 'a list" where
  "slice_to xs m = (if 0 \<le> m then take (nat m) xs else take (length xs - nat (- m)) xs)"

record search_result =
  res_doc_id :: int
  res_url :: pyval
  res_title :: pyval
  res_description :: pyval
  res_score :: real

definition format_result :: "inverted_index \<Rightarrow> int \<times> real \<Rightarrow> search_result" where
  "format_result ix e =
     (let doc_metadata = dict_get (documents ix) (IntKey (fst e)) []
      in \<lparr>res_doc_id = fst e,
          res_url = dict_get doc_metadata ''url'' (PyStr ''''),
          res_title = dict_get doc_metadata ''title'' (PyStr ''''),
          res_description = dict_get doc_metadata ''description'' (PyStr ''''),
          res_score = snd e\<rparr>)"

definition search ::
  "(int list \<Rightarrow> int list) \<Rightarrow> tfidf_ranker \<Rightarrow> inverted_index \<Rightarrow> string list \<Rightarrow> int
     \<Rightarrow> search_result list \<times> tfidf_ranker" where
  "search iter_order r ix query_terms max_results =
     (let doc_ids_set = candidate_doc_ids ix query_terms in
      if doc_ids_set = [] then ([], r)
      else
        let (ranked, r') = rank_results r ix query_terms (iter_order doc_ids_set)
        in (map (format_result ix) (slice_to ranked max_results), r'))"

text \<open>
  A cache is current for an index when every value it holds is the value a ranker with an
  empty cache computes from that index. A new ranker has an empty cache.
\<close>

definition cache_current :: "tfidf_ranker \<Rightarrow> inverted_index \<Rightarrow> bool" where
  "cache_current r ix =
     (\<forall>(t, v) \<in> set (idf_cache r). fst (calculate_idf (r\<lparr>idf_cache := []\<rparr>) ix t) = v)"

text \<open>
  The scoring rule as the specification words it, to compare \<open>score_document\<close> with.
  \<open>spec_tf\<close>: the frequency of the first posting of the document in the term's posting
  list, 0 without one. \<open>spec_contribution\<close>: that frequency times the value
  \<open>calculate_idf\<close> returns for the term, times the title boost when the lower-cased term
  is a substring of the lower-cased title.
\<close>

definition spec_tf :: "inverted_index \<Rightarrow> string \<Rightarrow> int \<Rightarrow> real" where
  "spec_tf ix t doc_id =
     (case find (\<lambda>p. fst p = doc_id) (postings_of ix t) of
        None \<Rightarrow> 0
      | Some p \<Rightarrow> real (fst (snd p)))"

definition spec_contribution ::
  "tfidf_ranker \<Rightarrow> inverted_index \<Rightarrow> string \<Rightarrow> int \<Rightarrow> metadata \<Rightarrow> real" where
  "spec_contribution r ix t doc_id doc_metadata =
     spec_tf ix t doc_id * fst (calculate_idf r ix t) *
       (if sublist (lower t) (lower (title_or_empty doc_metadata)) then boost_title r else 1)"

text \<open>
  Two ranker states look the same over an index when they hold the same title boost and
  \<open>calculate_idf\<close> returns the same value for every term.
\<close>

definition same_view :: "tfidf_ranker \<Rightarrow> tfidf_ranker \<Rightarrow> inverted_index \<Rightarrow> bool" where
  "same_view r r' ix \<longleftrightarrow>
     boost_title r' = boost_title r \<and>
     (\<forall>t. fst (calculate_idf r' ix t) = fst (calculate_idf r ix t))"

text \<open>The score \<open>rank_results\<close> computes for a document: with the metadata stored for it.\<close>

definition doc_score :: "tfidf_ranker \<Rightarrow> inverted_index \<Rightarrow> string list \<Rightarrow> int \<Rightarrow> real" where
  "doc_score r ix query_terms doc_id =
     fst (score_document r ix query_terms doc_id (dict_get (documents ix) (IntKey doc_id) []))"

section \<open>text\_processor.py: URL normalisation\<close>

text \<open>
  \<open>str.strip()\<close> removes whitespace at both ends; \<open>rstrip('/')\<close> removes every trailing
  slash; \<open>split('#')[0]\<close> is the text before the first \<open>#\<close>; \<open>count('/')\<close> counts slashes.
\<close>

definition is_space :: "char \<Rightarrow> bool" where
  "is_space c \<longleftrightarrow>
     c \<in> set [CHR 0x09, CHR 0x0A, CHR 0x0B, CHR 0x0C, CHR 0x0D,
              CHR 0x1C, CHR 0x1D, CHR 0x1E, CHR 0x1F, CHR '' '']"

definition strip :: "string \<Rightarrow> string" where
  "strip s = rev (dropWhile is_space (rev (dropWhile is_space s)))"

definition rstrip_char :: "char \<Rightarrow> string \<Rightarrow> string" where
  "rstrip_char c s = rev (dropWhile (\<lambda>x. x = c) (rev s))"

definition normalize_url :: "string \<Rightarrow> string" where
  "normalize_url url =
     (let u = strip url;
          u' = (if suffix ''/'' u \<and> count_list u (CHR ''/'') > 3
                then rstrip_char (CHR ''/'') u else u)
      in takeWhile (\<lambda>c. c \<noteq> CHR ''#'') u')"

section \<open>web\_crawler.py: fetching and the crawl loop\<close>

text \<open>
  The network is a parameter. \<open>http_get net url attempt\<close> is what the request made by
  \<open>fetch_page(url, attempt)\<close> meets: a response with its status and body, a timeout, or any
  other exception. \<open>can_fetch\<close> is the verdict of the robots parser, \<open>extract_links\<close> the
  links \<open>HTMLProcessor\<close> finds in a body, and \<open>should_follow_link\<close> the link filter of
  \<open>URLProcessor\<close> (it rests on \<open>urlparse\<close>).
\<close>

datatype fetch_outcome = Response int string | TimeoutError | OtherError

datatype crawl_event = Get string nat | Sleep real

record crawler_config =
  seed_urls :: "string list"
  max_pages :: int
  respect_robots_txt :: bool
  retry_attempts :: int
  retry_backoff :: real
  follow_external_links :: bool

record page_content =
  page_url :: string
  page_html :: string
  page_status_code :: int
  page_links :: "string list"

record network =
  http_get :: "string \<Rightarrow> nat \<Rightarrow> fetch_outcome"
  can_fetch :: "string \<Rightarrow> bool"
  extract_links :: "string \<Rightarrow> string \<Rightarrow> string list"
  should_follow_link :: "string \<Rightarrow> string \<Rightarrow> bool \<Rightarrow> bool"

definition make_page :: "network \<Rightarrow> string \<Rightarrow> string \<Rightarrow> int \<Rightarrow> page_content" where
  "make_page net u body status =
     \<lparr>page_url = u, page_html = body, page_status_code = status,
      page_links = extract_links net body u\<rparr>"

text \<open>
  \<open>fetch_page\<close> returns the page (or \<open>None\<close>) and the log of what it did: each request sent
  and each back-off sleep, in order. The retry is a tail call, so the log is an accumulator.
\<close>

function fetch_page ::
  "crawler_config \<Rightarrow> network \<Rightarrow> bool \<Rightarrow> string \<Rightarrow> nat \<Rightarrow> crawl_event list
     \<Rightarrow> page_content option \<times> crawl_event list" where
  "fetch_page cfg net session u attempt trace =
     (if \<not> session then (None, trace)
      else
        (case http_get net u attempt of
           Response status body \<Rightarrow>
             if status = 200 then (Some (make_page net u body status), trace @ [Get u attempt])
             else (None, trace @ [Get u attempt])
         | TimeoutError \<Rightarrow>
             if int attempt < retry_attempts cfg
             then fetch_page cfg net session u (attempt + 1)
                    (trace @ [Get u attempt, Sleep (retry_backoff cfg ^ attempt)])
             else (None, trace @ [Get u attempt])
         | OtherError \<Rightarrow>
             if int attempt < retry_attempts cfg
             then fetch_page cfg net session u (attempt + 1)
                    (trace @ [Get u attempt, Sleep (retry_backoff cfg ^ attempt)])
             else (None, trace @ [Get u attempt])))"
  by pat_completeness auto
termination
  by (relation "measure (\<lambda>(cfg, net, session, u, attempt, trace). nat (retry_attempts cfg - int attempt))")
     auto

declare fetch_page.simps [simp del]

record crawler_state =
  visited_urls :: "string set"
  to_visit :: "string list"
  crawled_pages :: "page_content list"
  session :: bool

definition init_crawler :: "crawler_config \<Rightarrow> crawler_state" where
  "init_crawler cfg =
     \<lparr>visited_urls = {}, to_visit = seed_urls cfg, crawled_pages = [], session = False\<rparr>"

text \<open>One pass through the body of the \<open>while\<close> loop of \<open>crawl_worker\<close>.\<close>

definition crawl_step :: "crawler_config \<Rightarrow> network \<Rightarrow> crawler_state \<Rightarrow> crawler_state" where
  "crawl_step cfg net s =
     (case to_visit s of
        [] \<Rightarrow> s
      | u0 # rest \<Rightarrow>
          let s1 = s\<lparr>to_visit := rest\<rparr>;
              u = normalize_url u0
          in if u \<in> visited_urls s1 then s1
             else
               let s2 = s1\<lparr>visited_urls := insert u (visited_urls s1)\<rparr>
               in if respect_robots_txt cfg \<and> \<not> can_fetch net u then s2
                  else
                    (case fst (fetch_page cfg net (session s2) u 0 []) of
                       None \<Rightarrow> s2
                     | Some page \<Rightarrow>
                         s2\<lparr>crawled_pages := crawled_pages s2 @ [page],
                            to_visit := to_visit s2 @
                              filter (\<lambda>link. link \<notin> visited_urls s2 \<and>
                                        should_follow_link net u link (follow_external_links cfg))
                                (map normalize_url (page_links page))\<rparr>))"

text \<open>
  The \<open>while\<close> loop itself. Nothing in its shape bounds the number of passes, so it is a
  partial function: not returning is the value \<open>None\<close>.
\<close>

partial_function (option) crawl_worker ::
  "crawler_config \<Rightarrow> network \<Rightarrow> crawler_state \<Rightarrow> crawler_state option" where
  "crawl_worker cfg net s =
     (if to_visit s \<noteq> [] \<and> int (length (crawled_pages s)) < max_pages cfg
      then crawl_worker cfg net (crawl_step cfg net s)
      else Some s)"

text \<open>
  \<open>crawl\<close> with one worker: open the session, run the worker, close the session, return the
  pages.
\<close>

definition crawl :: "crawler_config \<Rightarrow> network \<Rightarrow> crawler_state \<Rightarrow> (page_content list \<times> crawler_state) option" where
  "crawl cfg net s =
     (case crawl_worker cfg net (s\<lparr>session := True\<rparr>) of
        None \<Rightarrow> None
      | Some s' \<Rightarrow> Some (crawled_pages s', s'\<lparr>session := False\<rparr>))"

text \<open>What a log says: the number of requests sent, and the back-off delays in order.\<close>

fun is_get :: "crawl_event \<Rightarrow> bool" where
  "is_get (Get _ _) = True"
| "is_get (Sleep _) = False"

definition fetch_attempts :: "crawl_event list \<Rightarrow> nat" where
  "fetch_attempts trace = length (filter is_get trace)"

fun delays :: "crawl_event list \<Rightarrow> real list" where
  "delays [] = []"
| "delays (Sleep d # es) = d # delays es"
| "delays (Get _ _ # es) = delays es"

text \<open>
  The order in which the loop makes progress: a pass either collects a page, or collects
  none and shortens the queue.
\<close>

definition crawl_order :: "crawler_config \<Rightarrow> (crawler_state \<times> crawler_state) set" where
  "crawl_order cfg =
     measures [\<lambda>s. nat (max_pages cfg - int (length (crawled_pages s))),
               \<lambda>s. length (to_visit s)]"

section \<open>Facts about the containers\<close>

lemma dict_get_defaultdict_append:
  "dict_get (defaultdict_append d k v) k' [] =
     (if k' = k then dict_get d k [] @ [v] else dict_get d k' [])"
  by (auto simp: dict_get_def defaultdict_append_def defaultdict_getitem_def AList.update_conv'
           split: option.splits)

lemma keys_defaultdict_append:
  "fst ` set (defaultdict_append d k v) = insert k (fst ` set d)"
  by (auto simp: defaultdict_append_def defaultdict_getitem_def AList.dom_update
           split: option.splits)

lemma distinct_defaultdict_append:
  "distinct (map fst d) \<Longrightarrow> distinct (map fst (defaultdict_append d k v))"
  by (auto simp: defaultdict_append_def defaultdict_getitem_def AList.distinct_update
           split: option.splits)

section \<open>Indexing\<close>

lemma keys_build_positions:
  "fst ` set (build_positions tp p ts) = fst ` set tp \<union> set ts"
  by (induction ts arbitrary: tp p) (auto simp: keys_defaultdict_append)

lemma distinct_build_positions:
  "distinct (map fst tp) \<Longrightarrow> distinct (map fst (build_positions tp p ts))"
  by (induction ts arbitrary: tp p) (auto simp: distinct_defaultdict_append)

text \<open>The offsets at which \<open>t\<close> occurs in \<open>x # xs\<close>, from those in \<open>xs\<close>.\<close>

lemma offsets_Cons:
  "filter (\<lambda>i. (x # xs) ! i = t) [0..<Suc (length xs)] =
     (if x = t then [0] else []) @ map Suc (filter (\<lambda>i. xs ! i = t) [0..<length xs])"
proof -
  have "[0..<Suc (length xs)] = 0 # map Suc [0..<length xs]"
    by (simp add: upt_conv_Cons map_Suc_upt del: upt_Suc)
  then show ?thesis by (simp add: filter_map comp_def del: upt_Suc)
qed

lemma length_offsets: "length (filter (\<lambda>i. ts ! i = t) [0..<length ts]) = count_list ts t"
proof (induction ts)
  case Nil
  then show ?case by simp
next
  case (Cons x xs)
  show ?case using Cons.IH by (simp add: offsets_Cons del: upt_Suc)
qed

lemma dict_get_build_positions:
  "dict_get (build_positions tp p ts) t [] =
     dict_get tp t [] @ map (\<lambda>i. p + i) (filter (\<lambda>i. ts ! i = t) [0..<length ts])"
proof (induction ts arbitrary: tp p)
  case Nil
  then show ?case by simp
next
  case (Cons x xs)
  show ?case
    by (simp add: Cons.IH dict_get_defaultdict_append offsets_Cons comp_def del: upt_Suc)
qed

lemma map_of_build_positions:
  "map_of (build_positions [] 0 ts) t =
     (if t \<in> set ts then Some (filter (\<lambda>i. ts ! i = t) [0..<length ts]) else None)"
proof (cases "t \<in> set ts")
  case True
  then have "t \<in> fst ` set (build_positions [] 0 ts)" by (simp add: keys_build_positions)
  then obtain ps where ps: "map_of (build_positions [] 0 ts) t = Some ps"
    by (metis map_of_eq_None_iff not_None_eq)
  then have "dict_get (build_positions [] 0 ts) t [] = ps" by (simp add: dict_get_def)
  moreover have "dict_get (build_positions [] 0 ts) t [] = filter (\<lambda>i. ts ! i = t) [0..<length ts]"
    by (simp add: dict_get_build_positions) (simp add: dict_get_def)
  ultimately show ?thesis using True ps by simp
next
  case False
  then have "t \<notin> fst ` set (build_positions [] 0 ts)" by (simp add: keys_build_positions)
  then show ?thesis using False by (simp add: map_of_eq_None_iff)
qed

lemma dict_get_add_postings:
  "distinct (map fst tps) \<Longrightarrow>
   dict_get (add_postings d tps idx) t [] =
     dict_get idx t [] @ (case map_of tps t of None \<Rightarrow> [] | Some ps \<Rightarrow> [(d, length ps, ps)])"
proof (induction tps arbitrary: idx)
  case Nil
  then show ?case by simp
next
  case (Cons a tps)
  obtain k ps where a: "a = (k, ps)" by (cases a)
  from Cons.prems a have nk: "map_of tps k = None" and dist: "distinct (map fst tps)"
    by (auto simp: map_of_eq_None_iff)
  show ?case using nk
    by (auto simp: a Cons.IH [OF dist] dict_get_defaultdict_append)
qed

lemma index_terms_frame [simp]:
  "document_count (index_terms s d tokens) = document_count s"
  "documents (index_terms s d tokens) = documents s"
  by (simp_all add: index_terms_def)

text \<open>
  C8. One call \<open>index_terms(doc_id, tokens)\<close> appends to the posting list of every term \<open>t\<close>
  of \<open>tokens\<close> exactly one posting: \<open>doc_id\<close>, the number of occurrences of \<open>t\<close> in \<open>tokens\<close>,
  and the ascending 0-based offsets of those occurrences (as many as the frequency). The
  posting lists of all other terms stay as they were. Since the earlier postings are kept
  and the new one is appended whatever they are, a second call for the same document adds
  a second posting for the same term: frequencies are never summed.
\<close>

theorem index_terms_postings:
  "postings_of (index_terms s doc_id tokens) t =
     postings_of s t @
       (if t \<in> set tokens
        then [(doc_id, count_list tokens t, filter (\<lambda>i. tokens ! i = t) [0..<length tokens])]
        else [])
   \<and> length (filter (\<lambda>i. tokens ! i = t) [0..<length tokens]) = count_list tokens t"
  by (simp add: get_postings_def index_terms_def dict_get_add_postings distinct_build_positions
        map_of_build_positions length_offsets)

theorem index_terms_postings_witness:
  "postings_of (index_terms (index_terms init_index 1 [''hello'', ''world'', ''hello'']) 1
                 [''hello'']) ''hello''
     = [(1, 2, [0, 2]), (1, 1, [0])]"
proof -
  have first: "postings_of (index_terms init_index 1 [''hello'', ''world'', ''hello'']) ''hello''
      = [(1, 2, [0, 2])]"
    using index_terms_postings [of init_index 1 "[''hello'', ''world'', ''hello'']" "''hello''"]
    by (simp add: get_postings_def dict_get_def init_index_def upt_rec)
  show ?thesis
    using index_terms_postings
      [of "index_terms init_index 1 [''hello'', ''world'', ''hello'']" 1 "[''hello'']" "''hello''"]
      first
    by (simp add: upt_rec)
qed

text \<open>
  C10. \<open>get_postings\<close> returns the index exactly as it found it. For a term that has no
  entry it returns the empty list, and the term still has no entry afterwards: the
  \<open>defaultdict\<close> is read with \<open>get\<close>, which stores nothing.
\<close>

theorem get_postings_observation_only:
  "snd (get_postings s t) = s
   \<and> (t \<notin> fst ` set (index s) \<longrightarrow>
        postings_of s t = [] \<and> t \<notin> fst ` set (index (snd (get_postings s t))))"
  by (auto simp: get_postings_def dict_get_def map_of_eq_None_iff [symmetric]
           simp del: map_of_eq_None_iff split: option.splits)

theorem get_postings_observation_only_witness:
  "''world'' \<notin> fst ` set (index (index_terms init_index 1 [''hello'']))
   \<and> snd (get_postings (index_terms init_index 1 [''hello'']) ''world'')
       = index_terms init_index 1 [''hello'']
   \<and> postings_of (index_terms init_index 1 [''hello'']) ''world'' = []"
proof -
  have unseen: "''world'' \<notin> fst ` set (index (index_terms init_index 1 [''hello'']))"
    by (simp add: index_terms_def init_index_def defaultdict_append_def defaultdict_getitem_def)
  show ?thesis
    using get_postings_observation_only [of "index_terms init_index 1 [''hello'']" "''world''"]
      unseen
    by simp
qed

text \<open>
  The document count after a sequence of operations is the number of \<open>add_document\<close> calls.
\<close>

lemma document_count_foldl:
  "document_count (foldl apply_index_op s ops) = document_count s + length (added_doc_ids ops)"
proof (induction ops arbitrary: s)
  case Nil
  then show ?case by simp
next
  case (Cons x ops)
  show ?case
    by (cases x) (simp_all add: Cons.IH add_document_def get_postings_def)
qed

lemma document_count_run_index_ops:
  "document_count (run_index_ops ops) = length (added_doc_ids ops)"
  by (simp add: run_index_ops_def document_count_foldl init_index_def)

text \<open>
  C4 at the input \<open>add_document(1, m); add_document(1, m)\<close>: one distinct document id, one
  stored document, and a document count of 2.
\<close>

theorem add_document_same_id_twice:
  "document_count (run_index_ops
      [AddDocument 1 [(''url'', PyStr ''https://example.com'')],
       AddDocument 1 [(''url'', PyStr ''https://example.com'')]]) = 2
   \<and> card (set (added_doc_ids
      [AddDocument 1 [(''url'', PyStr ''https://example.com'')],
       AddDocument 1 [(''url'', PyStr ''https://example.com'')]])) = 1
   \<and> length (documents (run_index_ops
      [AddDocument 1 [(''url'', PyStr ''https://example.com'')],
       AddDocument 1 [(''url'', PyStr ''https://example.com'')]])) = 1"
  by (simp add: run_index_ops_def init_index_def add_document_def)

section \<open>Persistence\<close>

lemma update_new_key:
  "k \<notin> fst ` set al \<Longrightarrow> AList.update k v al = al @ [(k, v)]"
  by (induction al) auto

lemma fold_update_distinct:
  "distinct (map fst (acc @ al)) \<Longrightarrow>
   fold (\<lambda>(k, v) d. AList.update k (f v) d) al acc = acc @ map (\<lambda>(k, v). (k, f v)) al"
proof (induction al arbitrary: acc)
  case Nil
  then show ?case by simp
next
  case (Cons a al)
  obtain k v where a: "a = (k, v)" by (cases a)
  from Cons.prems a have new: "k \<notin> fst ` set acc" by auto
  from Cons.prems a have "distinct (map fst ((acc @ [(k, f v)]) @ al))" by auto
  from Cons.IH [OF this] show ?case by (simp add: a update_new_key [OF new])
qed

lemma json_object_distinct: "distinct (map fst al) \<Longrightarrow> json_object al = al"
  using fold_update_distinct [of "[]" al "\<lambda>v. v"] by (simp add: json_object_def)

lemma posting_tuple_id: "map (\<lambda>(doc_id, freq, pos). (doc_id, freq, pos)) ps = ps"
  by (induction ps) auto

lemma distinct_add_postings:
  "distinct (map fst idx) \<Longrightarrow> distinct (map fst (add_postings d tps idx))"
  by (induction tps arbitrary: idx) (auto simp: distinct_defaultdict_append)

lemma distinct_index_foldl:
  "distinct (map fst (index s)) \<Longrightarrow> distinct (map fst (index (foldl apply_index_op s ops)))"
proof (induction ops arbitrary: s)
  case Nil
  then show ?case by simp
next
  case (Cons x ops)
  then show ?case
    by (cases x) (simp_all add: add_document_def index_terms_def get_postings_def distinct_add_postings)
qed

lemma distinct_index_run_index_ops: "distinct (map fst (index (run_index_ops ops)))"
  by (simp add: run_index_ops_def distinct_index_foldl init_index_def)

lemma index_round_trip:
  assumes "distinct (map fst (index s))"
  shows "index (load_from_json init_index (Some (save_to_json s))) = index s"
proof -
  have keys: "map fst (map (\<lambda>(t, postings). (t, map (\<lambda>(doc_id, freq, pos). (doc_id, freq, pos)) postings)) (index s)) = map fst (index s)"
    by (induction "index s") (auto simp: case_prod_beta)
  have saved: "file_index (save_to_json s) = index s"
    by (simp add: save_to_json_def posting_tuple_id case_prod_beta)
  have "fold (\<lambda>(t, postings) idx. AList.update t (map (\<lambda>(doc_id, freq, pos). (doc_id, freq, pos)) postings) idx)
          (index s) [] = index s"
    using fold_update_distinct [of "[]" "index s" "\<lambda>v. v"] assms
    by (simp add: posting_tuple_id)
  then show ?thesis
    using assms by (simp add: load_from_json_def saved json_object_distinct init_index_def)
qed

text \<open>
  The posting lists survive the round trip through the file: the terms are strings, so
  \<open>json.dump\<close> leaves the keys of \<open>index\<close> alone.
\<close>

lemma postings_round_trip:
  "postings_of (load_from_json init_index (Some (save_to_json (run_index_ops ops)))) t =
     postings_of (run_index_ops ops) t"
  by (simp add: get_postings_def index_round_trip distinct_index_run_index_ops)

text \<open>
  C1 at two inputs. After \<open>add_document(1, m); index_terms(1, ['test', 'data'])\<close>, saved and
  loaded into a fresh index: the document was stored under the integer 1; the loaded
  \<open>documents\<close> has the single key \<open>'1'\<close>, a string, and nothing under the integer 1.
  After \<open>add_document(1, m); add_document(1, m)\<close>: the document count is 2 before saving
  and 1 after loading.
\<close>

theorem json_round_trip_loses_doc_ids:
  "dict_get (documents (run_index_ops
       [AddDocument 1 [(''url'', PyStr ''https://example.com'')],
        IndexTerms 1 [''test'', ''data'']])) (IntKey 1) []
     = [(''url'', PyStr ''https://example.com'')]
   \<and> map_of (documents (load_from_json init_index (Some (save_to_json (run_index_ops
       [AddDocument 1 [(''url'', PyStr ''https://example.com'')],
        IndexTerms 1 [''test'', ''data'']]))))) (IntKey 1) = None
   \<and> documents (load_from_json init_index (Some (save_to_json (run_index_ops
       [AddDocument 1 [(''url'', PyStr ''https://example.com'')],
        IndexTerms 1 [''test'', ''data'']]))))
     = [(StrKey ''1'', [(''url'', PyStr ''https://example.com'')])]
   \<and> document_count (run_index_ops
       [AddDocument 1 [(''url'', PyStr ''https://example.com'')],
        AddDocument 1 [(''url'', PyStr ''https://example.com'')]]) = 2
   \<and> document_count (load_from_json init_index (Some (save_to_json (run_index_ops
       [AddDocument 1 [(''url'', PyStr ''https://example.com'')],
        AddDocument 1 [(''url'', PyStr ''https://example.com'')]])))) = 1"
  by code_simp

section \<open>URL normalisation\<close>

text \<open>The result of \<open>normalize_url\<close> never holds a \<open>#\<close>.\<close>

lemma normalize_url_no_fragment: "CHR ''#'' \<notin> set (normalize_url u)"
  unfolding normalize_url_def Let_def
  using set_takeWhileD by fastforce

text \<open>
  C6 at the input \<open>https://example.com/path/#fragment\<close>: the trailing slash is tested
  before the fragment is cut off, so the URL does not end with a slash when tested, and
  the result keeps the slash that the same URL without its fragment loses.
\<close>

theorem normalize_url_fragment_after_slash:
  "normalize_url ''https://example.com/path/#fragment'' = ''https://example.com/path/''
   \<and> normalize_url ''https://example.com/path/'' = ''https://example.com/path''
   \<and> normalize_url ''https://example.com/path#fragment'' = ''https://example.com/path''"
  by code_simp

section \<open>Inverse document frequency\<close>

lemma calculate_idf_empty_cache:
  "fst (calculate_idf (r\<lparr>idf_cache := []\<rparr>) ix t) =
     (if postings_of ix t = [] \<or> document_count ix = 0 then 0
      else ln (real (document_count ix) / real (length (postings_of ix t))))"
  by (simp add: calculate_idf_def Let_def)

lemma calculate_idf_current:
  assumes "cache_current r ix"
  shows "fst (calculate_idf r ix t) =
     (if postings_of ix t = [] \<or> document_count ix = 0 then 0
      else ln (real (document_count ix) / real (length (postings_of ix t))))"
proof (cases "map_of (idf_cache r) t")
  case None
  then show ?thesis by (simp add: calculate_idf_def Let_def)
next
  case (Some v)
  then have "(t, v) \<in> set (idf_cache r)" by (rule map_of_SomeD)
  with assms have "fst (calculate_idf (r\<lparr>idf_cache := []\<rparr>) ix t) = v"
    by (auto simp: cache_current_def)
  moreover have "fst (calculate_idf r ix t) = v" using Some by (simp add: calculate_idf_def)
  ultimately show ?thesis by (simp add: calculate_idf_empty_cache)
qed

lemma calculate_idf_keeps_current:
  assumes "cache_current r ix"
  shows "cache_current (snd (calculate_idf r ix t)) ix"
proof (cases "map_of (idf_cache r) t = None \<and> postings_of ix t \<noteq> []")
  case False
  then have "snd (calculate_idf r ix t) = r"
    by (auto simp: calculate_idf_def Let_def split: option.splits)
  with assms show ?thesis by simp
next
  case True
  define v where "v = (if document_count ix > 0
      then ln (real (document_count ix) / real (length (postings_of ix t))) else 0)"
  have upd: "snd (calculate_idf r ix t) = r\<lparr>idf_cache := AList.update t v (idf_cache r)\<rparr>"
    using True by (simp add: calculate_idf_def Let_def v_def)
  have new: "AList.update t v (idf_cache r) = idf_cache r @ [(t, v)]"
    using True by (intro update_new_key) (simp add: map_of_eq_None_iff)
  have val: "fst (calculate_idf (r\<lparr>idf_cache := []\<rparr>) ix t) = v"
    using True by (simp add: calculate_idf_empty_cache v_def)
  show ?thesis
    using assms val by (auto simp: cache_current_def upd new)
qed

lemma calculate_idf_monotone_pos:
  assumes cur: "cache_current r ix"
    and pos: "0 < length (postings_of ix term1)"
    and lt: "length (postings_of ix term1) < length (postings_of ix term2)"
  shows "fst (calculate_idf r ix term2) \<le> fst (calculate_idf r ix term1)
       \<and> fst (calculate_idf (snd (calculate_idf r ix term1)) ix term2)
           \<le> fst (calculate_idf r ix term1)"
proof -
  let ?N = "real (document_count ix)"
  let ?d1 = "real (length (postings_of ix term1))"
  let ?d2 = "real (length (postings_of ix term2))"
  have ne: "postings_of ix term1 \<noteq> []" "postings_of ix term2 \<noteq> []"
    using pos lt by auto
  have main: "(if postings_of ix term2 = [] \<or> document_count ix = 0 then 0 else ln (?N / ?d2))
      \<le> (if postings_of ix term1 = [] \<or> document_count ix = 0 then 0 else ln (?N / ?d1))"
  proof (cases "document_count ix = 0")
    case True
    then show ?thesis by simp
  next
    case False
    then have N: "0 < ?N" by simp
    have d: "0 < ?d1" "?d1 \<le> ?d2" using pos lt by simp_all
    have "?N / ?d2 \<le> ?N / ?d1"
      using N d by (intro frac_le) simp_all
    moreover have "0 < ?d2" using d by linarith
    ultimately have "0 < ?N / ?d2" "?N / ?d2 \<le> ?N / ?d1" using N by simp_all
    then have "ln (?N / ?d2) \<le> ln (?N / ?d1)"
      by (simp add: ln_le_cancel_iff)
    then show ?thesis using False ne by simp
  qed
  have a: "fst (calculate_idf r ix term2) \<le> fst (calculate_idf r ix term1)"
    using main by (simp only: calculate_idf_current [OF cur])
  have cur': "cache_current (snd (calculate_idf r ix term1)) ix"
    by (rule calculate_idf_keeps_current [OF cur])
  have b: "fst (calculate_idf (snd (calculate_idf r ix term1)) ix term2)
      \<le> fst (calculate_idf r ix term1)"
    using main by (simp only: calculate_idf_current [OF cur] calculate_idf_current [OF cur'])
  from a b show ?thesis ..
qed


text \<open>
  C7, amended. On a ranker whose cache is current for the index (a new ranker is), for two
  terms with \<open>df(term1) < df(term2)\<close>: when \<open>df(term1) > 0\<close>,
  \<open>calculate_idf(term1) \<ge> calculate_idf(term2)\<close>, whether the two calls are made on
  the same ranker state or one after the other; when \<open>df(term1) = 0\<close>,
  \<open>calculate_idf(term1)\<close> is 0, and no order between the two values is claimed.
\<close>

theorem calculate_idf_monotone:
  assumes cur: "cache_current r ix"
    and lt: "length (postings_of ix term1) < length (postings_of ix term2)"
  shows "(0 < length (postings_of ix term1) \<longrightarrow>
            fst (calculate_idf r ix term2) \<le> fst (calculate_idf r ix term1)
          \<and> fst (calculate_idf (snd (calculate_idf r ix term1)) ix term2)
              \<le> fst (calculate_idf r ix term1))
       \<and> (length (postings_of ix term1) = 0 \<longrightarrow> fst (calculate_idf r ix term1) = 0)"
  using calculate_idf_monotone_pos [OF cur _ lt] calculate_idf_current [OF cur, of term1]
  by auto

theorem calculate_idf_monotone_witness:
  "fst (calculate_idf (init_ranker 2 1.5)
      (run_index_ops [AddDocument 1 [(''url'', PyStr ''doc1'')], AddDocument 2 [(''url'', PyStr ''doc2'')],
         IndexTerms 1 [''hello'', ''world''], IndexTerms 2 [''hello'']]) ''hello'')
   \<le> fst (calculate_idf (init_ranker 2 1.5)
      (run_index_ops [AddDocument 1 [(''url'', PyStr ''doc1'')], AddDocument 2 [(''url'', PyStr ''doc2'')],
         IndexTerms 1 [''hello'', ''world''], IndexTerms 2 [''hello'']]) ''world'')"
proof -
  let ?ix = "run_index_ops [AddDocument 1 [(''url'', PyStr ''doc1'')], AddDocument 2 [(''url'', PyStr ''doc2'')],
         IndexTerms 1 [''hello'', ''world''], IndexTerms 2 [''hello'']]"
  have ix: "?ix = \<lparr>index = [(''hello'', [(1, 1, [0]), (2, 1, [0])]), (''world'', [(1, 1, [1])])],
      document_count = 2,
      documents = [(IntKey 1, [(''url'', PyStr ''doc1'')]), (IntKey 2, [(''url'', PyStr ''doc2'')])]\<rparr>"
    by code_simp
  have cur: "cache_current (init_ranker 2 1.5) ?ix"
    by (simp add: cache_current_def init_ranker_def)
  have pos: "0 < length (postings_of ?ix ''world'')"
    unfolding ix by (simp add: get_postings_def dict_get_def)
  have lt: "length (postings_of ?ix ''world'') < length (postings_of ?ix ''hello'')"
    unfolding ix by (simp add: get_postings_def dict_get_def)
  from calculate_idf_monotone [OF cur lt] pos show ?thesis by simp
qed

text \<open>
  The claim as stated fails when \<open>df(term1) = 0\<close>: with two documents and one posting for
  \<open>hello\<close>, \<open>world\<close> has no posting and \<open>calculate_idf\<close> returns 0 for it, below
  \<open>ln 2\<close> for \<open>hello\<close>.
\<close>

theorem calculate_idf_zero_df_counterexample:
  "length (postings_of (run_index_ops [AddDocument 1 [(''url'', PyStr ''doc1'')],
        AddDocument 2 [(''url'', PyStr ''doc2'')], IndexTerms 1 [''hello'']]) ''world'')
     < length (postings_of (run_index_ops [AddDocument 1 [(''url'', PyStr ''doc1'')],
        AddDocument 2 [(''url'', PyStr ''doc2'')], IndexTerms 1 [''hello'']]) ''hello'')
   \<and> 0 < length (postings_of (run_index_ops [AddDocument 1 [(''url'', PyStr ''doc1'')],
        AddDocument 2 [(''url'', PyStr ''doc2'')], IndexTerms 1 [''hello'']]) ''hello'')
   \<and> fst (calculate_idf (init_ranker 2 1.5) (run_index_ops [AddDocument 1 [(''url'', PyStr ''doc1'')],
        AddDocument 2 [(''url'', PyStr ''doc2'')], IndexTerms 1 [''hello'']]) ''world'') = 0
   \<and> fst (calculate_idf (init_ranker 2 1.5) (run_index_ops [AddDocument 1 [(''url'', PyStr ''doc1'')],
        AddDocument 2 [(''url'', PyStr ''doc2'')], IndexTerms 1 [''hello'']]) ''hello'') = ln 2
   \<and> \<not> fst (calculate_idf (init_ranker 2 1.5) (run_index_ops [AddDocument 1 [(''url'', PyStr ''doc1'')],
        AddDocument 2 [(''url'', PyStr ''doc2'')], IndexTerms 1 [''hello'']]) ''hello'')
       \<le> fst (calculate_idf (init_ranker 2 1.5) (run_index_ops [AddDocument 1 [(''url'', PyStr ''doc1'')],
        AddDocument 2 [(''url'', PyStr ''doc2'')], IndexTerms 1 [''hello'']]) ''world'')"
proof -
  have ix: "run_index_ops [AddDocument 1 [(''url'', PyStr ''doc1'')],
        AddDocument 2 [(''url'', PyStr ''doc2'')], IndexTerms 1 [''hello'']]
     = \<lparr>index = [(''hello'', [(1, 1, [0])])], document_count = 2,
        documents = [(IntKey 1, [(''url'', PyStr ''doc1'')]), (IntKey 2, [(''url'', PyStr ''doc2'')])]\<rparr>"
    by code_simp
  show ?thesis
    unfolding ix
    by (simp add: calculate_idf_def init_ranker_def get_postings_def dict_get_def Let_def)
qed

section \<open>Fetching with retries\<close>

lemma fetch_page_fail_from:
  assumes "\<forall>k. http_get net u k = TimeoutError \<or> http_get net u k = OtherError"
    and "attempt \<le> nat (retry_attempts cfg)"
  shows "fetch_page cfg net True u attempt trace =
     (None,
      trace @ concat (map (\<lambda>k. [Get u k, Sleep (retry_backoff cfg ^ k)])
                        [attempt..<nat (retry_attempts cfg)])
            @ [Get u (nat (retry_attempts cfg))])"
  using assms
proof (induction cfg net True u attempt trace rule: fetch_page.induct)
  case (1 cfg net u attempt trace)
  from "1.prems" have fail:
    "http_get net u attempt = TimeoutError \<or> http_get net u attempt = OtherError"
    by blast
  show ?case
  proof (cases "int attempt < retry_attempts cfg")
    case True
    then have up: "[attempt..<nat (retry_attempts cfg)] =
        attempt # [Suc attempt..<nat (retry_attempts cfg)]"
      by (simp add: upt_conv_Cons)
    have le: "attempt + 1 \<le> nat (retry_attempts cfg)" using True by simp
    from fail show ?thesis
    proof
      assume t: "http_get net u attempt = TimeoutError"
      from "1.hyps"(1) [OF _ t True "1.prems"(1) le] t True show ?thesis
        by (subst fetch_page.simps) (simp add: up)
    next
      assume t: "http_get net u attempt = OtherError"
      from "1.hyps"(2) [OF _ t True "1.prems"(1) le] t True show ?thesis
        by (subst fetch_page.simps) (simp add: up)
    qed
  next
    case False
    with "1.prems" have eq: "nat (retry_attempts cfg) = attempt" by simp
    from fail False show ?thesis
      by (subst fetch_page.simps) (auto simp: eq)
  qed
qed

lemma fetch_attempts_retries:
  "fetch_attempts (concat (map (\<lambda>k. [Get u k, Sleep (f k)]) ks) @ [Get u n]) = length ks + 1"
  by (induction ks) (simp_all add: fetch_attempts_def)

lemma delays_retries:
  "delays (concat (map (\<lambda>k. [Get u k, Sleep (f k)]) ks) @ [Get u n]) = map f ks"
  by (induction ks) simp_all

lemma fetch_page_not_200:
  "http_get net u attempt = Response status body \<Longrightarrow> status \<noteq> 200 \<Longrightarrow>
   fetch_page cfg net True u attempt trace = (None, trace @ [Get u attempt])"
  by (subst fetch_page.simps) simp

lemma crawl_step_no_page:
  assumes "to_visit s = u0 # rest"
    and "fst (fetch_page cfg net (session s) (normalize_url u0) 0 []) = None"
  shows "crawled_pages (crawl_step cfg net s) = crawled_pages s
       \<and> to_visit (crawl_step cfg net s) = rest"
  using assms by (simp add: crawl_step_def Let_def)

text \<open>
  C5, amended. With an open session:
  \<^item> a URL whose every request ends in a timeout or another exception yields no page, after
    exactly \<open>retry_attempts + 1\<close> requests (one request when \<open>retry_attempts\<close> is negative),
    with the sleeps \<open>retry_backoff ^ 0, ..., retry_backoff ^ (retry_attempts - 1)\<close> between
    them;
  \<^item> a response with a status other than 200 yields no page after that single request: it
    is not retried;
  \<^item> when \<open>fetch_page\<close> yields no page, the pass of the crawl loop adds no page and leaves
    the queue as it was without the URL.
\<close>

theorem fetch_page_retry_policy:
  "((\<forall>k. http_get net u k = TimeoutError \<or> http_get net u k = OtherError) \<longrightarrow>
       fst (fetch_page cfg net True u 0 []) = None
     \<and> fetch_attempts (snd (fetch_page cfg net True u 0 [])) = nat (retry_attempts cfg) + 1
     \<and> delays (snd (fetch_page cfg net True u 0 []))
         = map (\<lambda>k. retry_backoff cfg ^ k) [0..<nat (retry_attempts cfg)])
   \<and> (http_get net u 0 = Response status body \<and> status \<noteq> 200 \<longrightarrow>
       fetch_page cfg net True u 0 [] = (None, [Get u 0]))
   \<and> (to_visit s = u0 # rest
        \<and> fst (fetch_page cfg net (session s) (normalize_url u0) 0 []) = None \<longrightarrow>
       crawled_pages (crawl_step cfg net s) = crawled_pages s
     \<and> to_visit (crawl_step cfg net s) = rest)"
proof (intro conjI impI)
  assume fail: "\<forall>k. http_get net u k = TimeoutError \<or> http_get net u k = OtherError"
  have eq: "fetch_page cfg net True u 0 [] =
     (None,
      concat (map (\<lambda>k. [Get u k, Sleep (retry_backoff cfg ^ k)]) [0..<nat (retry_attempts cfg)])
        @ [Get u (nat (retry_attempts cfg))])"
    using fetch_page_fail_from [OF fail, of 0 cfg "[]"] by simp
  show "fst (fetch_page cfg net True u 0 []) = None" by (simp add: eq)
  show "fetch_attempts (snd (fetch_page cfg net True u 0 [])) = nat (retry_attempts cfg) + 1"
    by (simp add: eq fetch_attempts_retries)
  show "delays (snd (fetch_page cfg net True u 0 []))
         = map (\<lambda>k. retry_backoff cfg ^ k) [0..<nat (retry_attempts cfg)]"
    by (simp only: eq snd_conv delays_retries)
next
  assume "http_get net u 0 = Response status body \<and> status \<noteq> 200"
  then show "fetch_page cfg net True u 0 [] = (None, [Get u 0])"
    using fetch_page_not_200 [of net u 0 status body cfg "[]"] by simp
next
  assume a: "to_visit s = u0 # rest
        \<and> fst (fetch_page cfg net (session s) (normalize_url u0) 0 []) = None"
  then show "crawled_pages (crawl_step cfg net s) = crawled_pages s"
    using crawl_step_no_page [of s u0 rest cfg net] by simp
  from a show "to_visit (crawl_step cfg net s) = rest"
    using crawl_step_no_page [of s u0 rest cfg net] by simp
qed

theorem fetch_page_retry_policy_witness:
  "fst (fetch_page
        \<lparr>seed_urls = [], max_pages = 5, respect_robots_txt = False, retry_attempts = 3,
         retry_backoff = 2, follow_external_links = False\<rparr>
        \<lparr>http_get = (\<lambda>u k. TimeoutError), can_fetch = (\<lambda>u. True),
         extract_links = (\<lambda>body u. []), should_follow_link = (\<lambda>u l e. True)\<rparr>
        True ''http://example.com/slow'' 0 []) = None
   \<and> fetch_attempts (snd (fetch_page
        \<lparr>seed_urls = [], max_pages = 5, respect_robots_txt = False, retry_attempts = 3,
         retry_backoff = 2, follow_external_links = False\<rparr>
        \<lparr>http_get = (\<lambda>u k. TimeoutError), can_fetch = (\<lambda>u. True),
         extract_links = (\<lambda>body u. []), should_follow_link = (\<lambda>u l e. True)\<rparr>
        True ''http://example.com/slow'' 0 [])) = 4
   \<and> delays (snd (fetch_page
        \<lparr>seed_urls = [], max_pages = 5, respect_robots_txt = False, retry_attempts = 3,
         retry_backoff = 2, follow_external_links = False\<rparr>
        \<lparr>http_get = (\<lambda>u k. TimeoutError), can_fetch = (\<lambda>u. True),
         extract_links = (\<lambda>body u. []), should_follow_link = (\<lambda>u l e. True)\<rparr>
        True ''http://example.com/slow'' 0 [])) = [1, 2, 4]"
  using fetch_page_retry_policy
    [of "\<lparr>http_get = (\<lambda>u k. TimeoutError), can_fetch = (\<lambda>u. True),
         extract_links = (\<lambda>body u. []), should_follow_link = (\<lambda>u l e. True)\<rparr>"
        "''http://example.com/slow''"
        "\<lparr>seed_urls = [], max_pages = 5, respect_robots_txt = False, retry_attempts = 3,
         retry_backoff = 2, follow_external_links = False\<rparr>"]
  by (simp add: upt_rec)

text \<open>
  The claim as stated fails for a status other than 200: with \<open>retry_attempts = 3\<close> and a
  server answering 404, \<open>fetch_page\<close> sends one request, not four.
\<close>

theorem fetch_page_non_200_counterexample:
  "fetch_page
        \<lparr>seed_urls = [], max_pages = 5, respect_robots_txt = False, retry_attempts = 3,
         retry_backoff = 2, follow_external_links = False\<rparr>
        \<lparr>http_get = (\<lambda>u k. Response 404 ''''), can_fetch = (\<lambda>u. True),
         extract_links = (\<lambda>body u. []), should_follow_link = (\<lambda>u l e. True)\<rparr>
        True ''http://example.com/missing'' 0 []
     = (None, [Get ''http://example.com/missing'' 0])
   \<and> fetch_attempts (snd (fetch_page
        \<lparr>seed_urls = [], max_pages = 5, respect_robots_txt = False, retry_attempts = 3,
         retry_backoff = 2, follow_external_links = False\<rparr>
        \<lparr>http_get = (\<lambda>u k. Response 404 ''''), can_fetch = (\<lambda>u. True),
         extract_links = (\<lambda>body u. []), should_follow_link = (\<lambda>u l e. True)\<rparr>
        True ''http://example.com/missing'' 0 [])) = 1
   \<and> int (fetch_attempts (snd (fetch_page
        \<lparr>seed_urls = [], max_pages = 5, respect_robots_txt = False, retry_attempts = 3,
         retry_backoff = 2, follow_external_links = False\<rparr>
        \<lparr>http_get = (\<lambda>u k. Response 404 ''''), can_fetch = (\<lambda>u. True),
         extract_links = (\<lambda>body u. []), should_follow_link = (\<lambda>u l e. True)\<rparr>
        True ''http://example.com/missing'' 0 [])))
       \<noteq> retry_attempts
        \<lparr>seed_urls = [], max_pages = 5, respect_robots_txt = False, retry_attempts = 3,
         retry_backoff = 2, follow_external_links = False\<rparr> + 1"
  by (simp add: fetch_page.simps fetch_attempts_def)

section \<open>The crawl loop\<close>

lemma crawl_step_progress:
  assumes "to_visit s \<noteq> []"
  shows "(crawled_pages (crawl_step cfg net s) = crawled_pages s
            \<and> length (to_visit (crawl_step cfg net s)) < length (to_visit s))
       \<or> length (crawled_pages (crawl_step cfg net s)) = Suc (length (crawled_pages s))"
  using assms
  by (cases "to_visit s") (auto simp: crawl_step_def Let_def split: option.splits)

lemma crawl_step_decreases:
  assumes "to_visit s \<noteq> []" and "int (length (crawled_pages s)) < max_pages cfg"
  shows "(crawl_step cfg net s, s) \<in> crawl_order cfg"
  using crawl_step_progress [OF assms(1), of cfg net] assms(2)
  by (auto simp: crawl_order_def)

lemma crawl_step_cap:
  assumes "int (length (crawled_pages s)) < max_pages cfg"
  shows "length (crawled_pages (crawl_step cfg net s)) \<le> nat (max_pages cfg)"
proof (cases "to_visit s = []")
  case True
  then show ?thesis using assms by (simp add: crawl_step_def)
next
  case False
  from crawl_step_progress [OF False, of cfg net] assms show ?thesis by auto
qed

text \<open>
  The loop returns from every state, whatever the network answers; when it returns, the
  queue is empty or the cap is reached, and a collection within the cap stays within it.
\<close>

lemma crawl_worker_total:
  "\<exists>s'. crawl_worker cfg net s = Some s'
        \<and> (to_visit s' = [] \<or> max_pages cfg \<le> int (length (crawled_pages s')))
        \<and> (length (crawled_pages s) \<le> nat (max_pages cfg) \<longrightarrow>
             length (crawled_pages s') \<le> nat (max_pages cfg))"
proof -
  have "wf (crawl_order cfg)" by (simp add: crawl_order_def)
  then show ?thesis
  proof (induction s rule: wf_induct_rule)
    case (less s)
    note IH = less.IH
    show ?case
  proof (cases "to_visit s \<noteq> [] \<and> int (length (crawled_pages s)) < max_pages cfg")
    case True
    then have dec: "(crawl_step cfg net s, s) \<in> crawl_order cfg"
      by (simp add: crawl_step_decreases)
    have cap: "length (crawled_pages (crawl_step cfg net s)) \<le> nat (max_pages cfg)"
      using True by (simp add: crawl_step_cap)
    have unfold: "crawl_worker cfg net s = crawl_worker cfg net (crawl_step cfg net s)"
      using True by (subst crawl_worker.simps) simp
    from IH [OF dec] cap show ?thesis by (auto simp: unfold)
  next
    case False
    then have "crawl_worker cfg net s = Some s"
      by (subst crawl_worker.simps) auto
    with False show ?thesis by auto
  qed
  qed
qed

lemma crawl_total:
  "\<exists>pages s'. crawl cfg net (init_crawler cfg) = Some (pages, s')
        \<and> length pages \<le> nat (max_pages cfg)
        \<and> (to_visit s' = [] \<or> length pages = nat (max_pages cfg))"
proof -
  let ?s = "(init_crawler cfg)\<lparr>session := True\<rparr>"
  from crawl_worker_total [of cfg net ?s]
  obtain s' where s': "crawl_worker cfg net ?s = Some s'"
    "to_visit s' = [] \<or> max_pages cfg \<le> int (length (crawled_pages s'))"
    "length (crawled_pages s') \<le> nat (max_pages cfg)"
    by (auto simp: init_crawler_def)
  then show ?thesis by (auto simp: crawl_def)
qed

lemma scenario_B_value:
  "crawl_worker
     \<lparr>seed_urls = [''https://example.com/''], max_pages = 5, respect_robots_txt = True,
      retry_attempts = 3, retry_backoff = 2, follow_external_links = False\<rparr>
     \<lparr>http_get = (\<lambda>u k. Response 200 ''<html></html>''), can_fetch = (\<lambda>u. True),
      extract_links = (\<lambda>body u. []), should_follow_link = (\<lambda>u l e. True)\<rparr>
     \<lparr>visited_urls = {}, to_visit = [''https://example.com/''], crawled_pages = [], session = True\<rparr>
   = Some \<lparr>visited_urls = {''https://example.com/''}, to_visit = [],
       crawled_pages = [\<lparr>page_url = ''https://example.com/'', page_html = ''<html></html>'',
                         page_status_code = 200, page_links = []\<rparr>],
       session = True\<rparr>"
proof -
  have n: "normalize_url ''https://example.com/'' = ''https://example.com/''"
    by code_simp
  show ?thesis
    apply (subst crawl_worker.simps)
    apply (simp add: crawl_step_def n fetch_page.simps make_page_def Let_def)
    apply (subst crawl_worker.simps)
    apply simp
    done
qed

text \<open>
  C9. The single-worker crawl loop terminates from every state and for every network:
  \<open>crawl_worker\<close> returns a state. In that state the queue is empty or the number of
  collected pages has reached \<open>max_pages\<close>, and a collection that was within the cap is
  still within it. So \<open>crawl\<close>, started on the seed list, returns at most \<open>max_pages\<close>
  pages, with the queue empty or exactly \<open>max_pages\<close> pages collected (a negative
  \<open>max_pages\<close> counts as 0: the loop body never runs and no page is returned).
\<close>

theorem crawl_terminates_capped:
  "(\<exists>s'. crawl_worker cfg net s = Some s'
        \<and> (to_visit s' = [] \<or> max_pages cfg \<le> int (length (crawled_pages s')))
        \<and> (length (crawled_pages s) \<le> nat (max_pages cfg) \<longrightarrow>
             length (crawled_pages s') \<le> nat (max_pages cfg)))
   \<and> (\<exists>pages s'. crawl cfg net (init_crawler cfg) = Some (pages, s')
        \<and> length pages \<le> nat (max_pages cfg)
        \<and> (to_visit s' = [] \<or> length pages = nat (max_pages cfg)))"
  using crawl_worker_total [of cfg net s] crawl_total [of cfg net] by blast

text \<open>
  Scenario B: one seed, a page without links, \<open>max_pages = 5\<close>: exactly one page is
  returned and the queue ends empty.
\<close>

theorem crawl_terminates_capped_witness:
  "\<exists>pages s'.
     crawl
       \<lparr>seed_urls = [''https://example.com/''], max_pages = 5, respect_robots_txt = True,
        retry_attempts = 3, retry_backoff = 2, follow_external_links = False\<rparr>
       \<lparr>http_get = (\<lambda>u k. Response 200 ''<html></html>''), can_fetch = (\<lambda>u. True),
        extract_links = (\<lambda>body u. []), should_follow_link = (\<lambda>u l e. True)\<rparr>
       (init_crawler
         \<lparr>seed_urls = [''https://example.com/''], max_pages = 5, respect_robots_txt = True,
          retry_attempts = 3, retry_backoff = 2, follow_external_links = False\<rparr>)
       = Some (pages, s')
     \<and> length pages = 1 \<and> to_visit s' = [] \<and> length pages \<le> 5"
  using crawl_terminates_capped
    [of "\<lparr>seed_urls = [''https://example.com/''], max_pages = 5, respect_robots_txt = True,
          retry_attempts = 3, retry_backoff = 2, follow_external_links = False\<rparr>"
        "\<lparr>http_get = (\<lambda>u k. Response 200 ''<html></html>''), can_fetch = (\<lambda>u. True),
          extract_links = (\<lambda>body u. []), should_follow_link = (\<lambda>u l e. True)\<rparr>"
        "\<lparr>visited_urls = {}, to_visit = [''https://example.com/''], crawled_pages = [],
          session = True\<rparr>"]
    scenario_B_value
  by (simp add: crawl_def init_crawler_def)

section \<open>Scoring\<close>

text \<open>\<open>needle in haystack\<close> is the contiguous-sublist relation.\<close>

lemma str_contains_sublist: "str_contains haystack needle \<longleftrightarrow> sublist needle haystack"
  by (induction haystack) (auto simp: sublist_Cons_right)

lemma calculate_tf_spec_tf: "calculate_tf ix t d = spec_tf ix t d"
proof -
  have "tf_loop ps d = (case find (\<lambda>p. fst p = d) ps of None \<Rightarrow> 0 | Some p \<Rightarrow> real (fst (snd p)))"
    for ps
    by (induction ps d rule: tf_loop.induct) auto
  then show ?thesis by (simp add: calculate_tf_def spec_tf_def)
qed

text \<open>A call of \<open>calculate_idf\<close> caches only the value it returns.\<close>

lemma calculate_idf_same_view: "same_view r (snd (calculate_idf r ix t)) ix"
proof (cases "map_of (idf_cache r) t = None \<and> postings_of ix t \<noteq> []")
  case False
  then have "snd (calculate_idf r ix t) = r"
    by (auto simp: calculate_idf_def Let_def split: option.splits)
  then show ?thesis by (simp add: same_view_def)
next
  case True
  define v where "v = (if document_count ix > 0
      then ln (real (document_count ix) / real (length (postings_of ix t))) else 0)"
  have upd: "snd (calculate_idf r ix t) = r\<lparr>idf_cache := AList.update t v (idf_cache r)\<rparr>"
    using True by (simp add: calculate_idf_def Let_def v_def)
  have val: "fst (calculate_idf r ix t) = v"
    using True by (simp add: calculate_idf_def Let_def v_def)
  have "fst (calculate_idf (r\<lparr>idf_cache := AList.update t v (idf_cache r)\<rparr>) ix t')
      = fst (calculate_idf r ix t')" for t'
  proof (cases "t' = t")
    case True
    then show ?thesis using val by (simp add: calculate_idf_def AList.update_conv')
  next
    case False
    then show ?thesis
      by (simp add: calculate_idf_def AList.update_conv' Let_def split: option.splits)
  qed
  then show ?thesis by (simp add: same_view_def upd)
qed

lemma same_view_refl: "same_view r r ix"
  by (simp add: same_view_def)

lemma same_view_trans: "same_view r r' ix \<Longrightarrow> same_view r' r'' ix \<Longrightarrow> same_view r r'' ix"
  by (simp add: same_view_def)

lemma spec_contribution_same_view:
  "same_view r r' ix \<Longrightarrow> spec_contribution r' ix t d m = spec_contribution r ix t d m"
  by (simp add: same_view_def spec_contribution_def)

lemma score_loop_sum:
  "fst (score_loop r ix ts d m acc) = acc + (\<Sum>t\<leftarrow>ts. spec_contribution r ix t d m)
   \<and> same_view r (snd (score_loop r ix ts d m acc)) ix"
proof (induction ts arbitrary: r acc)
  case Nil
  then show ?case by (simp add: same_view_refl)
next
  case (Cons t ts)
  let ?r' = "snd (calculate_idf r ix t)"
  have sv: "same_view r ?r' ix" by (rule calculate_idf_same_view)
  then have bt: "boost_title ?r' = boost_title r" by (simp add: same_view_def)
  let ?c = "spec_contribution r ix t d m"
  have step: "score_loop r ix (t # ts) d m acc = score_loop ?r' ix ts d m (acc + ?c)"
    by (simp add: Let_def case_prod_beta spec_contribution_def calculate_tf_spec_tf
          str_contains_sublist bt)
  have sums: "(\<Sum>x\<leftarrow>ts. spec_contribution ?r' ix x d m) = (\<Sum>x\<leftarrow>ts. spec_contribution r ix x d m)"
    by (simp add: spec_contribution_same_view [OF sv])
  show ?case
    using Cons.IH [of ?r' "acc + ?c"] same_view_trans [OF sv]
    by (simp only: step sums) (simp add: add.assoc)
qed

text \<open>
  C2. The score \<open>score_document\<close> returns is the sum, over the query terms in order, of the
  term's contribution: the frequency of the first posting of the document in the term's
  posting list (0 when there is none; later postings of the document are not looked at),
  times the idf \<open>calculate_idf\<close> returns for the term, times the title boost exactly when
  the lower-cased term is a substring of the lower-cased title of the metadata. The idf
  values are those of the ranker as it is when \<open>score_document\<close> is called: the cache
  entries made on the way do not change them. \<open>calculate_tf\<close> is that first-posting
  frequency.
\<close>

theorem score_document_sum:
  "fst (score_document r ix query_terms doc_id doc_metadata)
     = (\<Sum>t\<leftarrow>query_terms. spec_contribution r ix t doc_id doc_metadata)
   \<and> calculate_tf ix t doc_id = spec_tf ix t doc_id"
  using score_loop_sum [of r ix query_terms doc_id doc_metadata 0]
  by (simp add: score_document_def calculate_tf_spec_tf)

text \<open>
  Three documents; \<open>hello\<close> indexed for document 1 twice, with frequencies 2 and 1; title
  \<open>Hello World\<close>: the score for the query \<open>hello\<close> is \<open>2 * ln (3 / 2) * 2\<close>.
\<close>

theorem score_document_sum_witness:
  "fst (score_document (init_ranker 2 1.5)
         (run_index_ops
            [AddDocument 1 [(''url'', PyStr ''doc1''), (''title'', PyStr ''Hello World'')],
             AddDocument 2 [(''url'', PyStr ''doc2'')],
             AddDocument 3 [(''url'', PyStr ''doc3'')],
             IndexTerms 1 [''hello'', ''hello''],
             IndexTerms 1 [''hello'']])
         [''hello''] 1 [(''url'', PyStr ''doc1''), (''title'', PyStr ''Hello World'')])
     = 2 * ln (3 / 2) * 2"
proof -
  let ?ix = "run_index_ops
            [AddDocument 1 [(''url'', PyStr ''doc1''), (''title'', PyStr ''Hello World'')],
             AddDocument 2 [(''url'', PyStr ''doc2'')],
             AddDocument 3 [(''url'', PyStr ''doc3'')],
             IndexTerms 1 [''hello'', ''hello''],
             IndexTerms 1 [''hello'']]"
  let ?m = "[(''url'', PyStr ''doc1''), (''title'', PyStr ''Hello World'')]"
  have ix: "?ix = \<lparr>index = [(''hello'', [(1, 2, [0, 1]), (1, 1, [0])])], document_count = 3,
      documents = [(IntKey 1, ?m), (IntKey 2, [(''url'', PyStr ''doc2'')]),
                   (IntKey 3, [(''url'', PyStr ''doc3'')])]\<rparr>"
    by code_simp
  have title: "sublist (lower ''hello'') (lower (title_or_empty ?m))"
    by code_simp
  have tf: "spec_tf ?ix ''hello'' 1 = 2"
    unfolding ix by (simp add: spec_tf_def get_postings_def dict_get_def)
  have idf: "fst (calculate_idf (init_ranker 2 1.5) ?ix ''hello'') = ln (3 / 2)"
    unfolding ix by (simp add: calculate_idf_def init_ranker_def get_postings_def dict_get_def Let_def)
  have "spec_contribution (init_ranker 2 1.5) ?ix ''hello'' 1 ?m = 2 * ln (3 / 2) * 2"
    using title by (simp only: spec_contribution_def tf idf if_True) (simp add: init_ranker_def)
  then show ?thesis
    using score_document_sum [of "init_ranker 2 1.5" ?ix "[''hello'']" 1 ?m]
    by simp
qed

section \<open>Ranking and search\<close>

lemma score_document_same_view:
  assumes "same_view r r' ix"
  shows "fst (score_document r' ix q d m) = fst (score_document r ix q d m)"
  using score_loop_sum [of r ix q d m 0] score_loop_sum [of r' ix q d m 0]
  by (simp add: score_document_def spec_contribution_same_view [OF assms])

lemma score_document_keeps_view: "same_view r (snd (score_document r ix q d m)) ix"
  using score_loop_sum [of r ix q d m 0] by (simp add: score_document_def)

lemma doc_score_same_view: "same_view r r' ix \<Longrightarrow> doc_score r' ix q d = doc_score r ix q d"
  by (simp add: doc_score_def score_document_same_view)

text \<open>\<open>rank_results\<close> and \<open>search\<close> in closed form.\<close>

lemma rank_loop_closed:
  "fst (rank_loop r ix q ds scores) =
     scores @ map (\<lambda>d. (d, doc_score r ix q d)) (filter (\<lambda>d. doc_score r ix q d > 0) ds)
   \<and> same_view r (snd (rank_loop r ix q ds scores)) ix"
proof (induction ds arbitrary: r scores)
  case Nil
  then show ?case by (simp add: same_view_refl)
next
  case (Cons d ds)
  let ?m = "dict_get (documents ix) (IntKey d) []"
  let ?r' = "snd (score_document r ix q d ?m)"
  let ?sc = "doc_score r ix q d"
  have sv: "same_view r ?r' ix" by (rule score_document_keeps_view)
  have step: "rank_loop r ix q (d # ds) scores =
      rank_loop ?r' ix q ds (if ?sc > 0 then scores @ [(d, ?sc)] else scores)"
    by (simp add: Let_def case_prod_beta doc_score_def)
  have same: "doc_score ?r' ix q = doc_score r ix q"
    by (rule ext) (rule doc_score_same_view [OF sv])
  show ?case
    using Cons.IH [of ?r' "if ?sc > 0 then scores @ [(d, ?sc)] else scores"]
      same_view_trans [OF sv]
    by (simp only: step same) auto
qed

lemma set_add_distinct: "distinct xs \<Longrightarrow> distinct (set_add xs x)"
  by (simp add: set_add_def)

lemma fold_set_add_distinct:
  "distinct acc \<Longrightarrow> distinct (fold (\<lambda>(doc_id, _, _) acc'. set_add acc' doc_id) ps acc)"
  by (induction ps arbitrary: acc) (auto simp: set_add_distinct)

lemma candidates_fold_distinct:
  "distinct acc \<Longrightarrow>
   distinct (fold (\<lambda>t acc. fold (\<lambda>(doc_id, _, _) acc'. set_add acc' doc_id) (postings_of ix t) acc)
               ts acc)"
  by (induction ts arbitrary: acc) (auto simp: fold_set_add_distinct)

lemma distinct_candidate_doc_ids: "distinct (candidate_doc_ids ix q)"
  by (simp add: candidate_doc_ids_def candidates_fold_distinct)

lemma filter_take_prefix: "prefix (filter P (take n xs)) (filter P xs)"
proof -
  have "filter P xs = filter P (take n xs) @ filter P (drop n xs)"
    by (metis append_take_drop_id filter_append)
  then show ?thesis by (simp add: prefix_def)
qed

lemma rank_results_closed:
  "fst (rank_results r ix q ds) =
     sort_key (\<lambda>x. - snd x)
       (map (\<lambda>d. (d, doc_score r ix q d)) (filter (\<lambda>d. doc_score r ix q d > 0) ds))"
  using rank_loop_closed [of r ix q ds "[]"]
  by (simp add: rank_results_def case_prod_beta)

lemma search_closed:
  "fst (search iter_order r ix q n) =
     (if candidate_doc_ids ix q = [] then []
      else map (format_result ix)
        (slice_to (sort_key (\<lambda>x. - snd x)
           (map (\<lambda>d. (d, doc_score r ix q d))
              (filter (\<lambda>d. doc_score r ix q d > 0) (iter_order (candidate_doc_ids ix q))))) n))"
  by (simp add: search_def Let_def case_prod_beta rank_results_closed)

lemma format_result_fields [simp]:
  "res_doc_id (format_result ix e) = fst e" "res_score (format_result ix e) = snd e"
  by (simp_all add: format_result_def Let_def)

lemma search_valid_closed:
  assumes "valid_iter_order iter_order" and "0 \<le> n"
  shows "fst (search iter_order r ix q n) =
     map (format_result ix)
        (take (nat n) (sort_key (\<lambda>x. - snd x)
           (map (\<lambda>d. (d, doc_score r ix q d))
              (filter (\<lambda>d. doc_score r ix q d > 0) (iter_order (candidate_doc_ids ix q))))))"
proof (cases "candidate_doc_ids ix q = []")
  case True
  have "set (iter_order []) = set []"
    using assms(1) [unfolded valid_iter_order_def, rule_format, of "[]"] by simp
  with True have "iter_order (candidate_doc_ids ix q) = []" by simp
  with True show ?thesis by (simp add: search_closed)
next
  case False
  with assms(2) show ?thesis by (simp add: search_closed slice_to_def)
qed

text \<open>
  C3, amended. For every enumeration order of the candidate set and every
  \<open>max_results \<ge> 0\<close>, \<open>search\<close> returns at most \<open>max_results\<close> entries; every entry
  is a candidate document with its score, which is positive, so a document whose score is
  \<open>\<le> 0\<close> is not among them; the entries are in descending order of score; and for every
  score value, the entries with that score appear in the order in which
  \<open>list(doc_ids_set)\<close> enumerates their documents (a prefix of them, after truncation).
\<close>

theorem search_result_shape:
  assumes ord: "valid_iter_order iter_order" and n: "0 \<le> max_results"
  shows "length (fst (search iter_order r ix q max_results)) \<le> nat max_results
   \<and> (\<forall>e \<in> set (fst (search iter_order r ix q max_results)).
         0 < res_score e \<and> res_score e = doc_score r ix q (res_doc_id e)
         \<and> res_doc_id e \<in> set (candidate_doc_ids ix q))
   \<and> (\<forall>d. doc_score r ix q d \<le> 0 \<longrightarrow>
         d \<notin> res_doc_id ` set (fst (search iter_order r ix q max_results)))
   \<and> sorted_wrt (\<lambda>a b. res_score b \<le> res_score a) (fst (search iter_order r ix q max_results))
   \<and> (\<forall>v. prefix
         (map res_doc_id (filter (\<lambda>e. res_score e = v) (fst (search iter_order r ix q max_results))))
         (filter (\<lambda>d. doc_score r ix q d = v) (iter_order (candidate_doc_ids ix q))))"
proof -
  let ?sc = "doc_score r ix q"
  let ?ids = "iter_order (candidate_doc_ids ix q)"
  let ?scs = "map (\<lambda>d. (d, ?sc d)) (filter (\<lambda>d. ?sc d > 0) ?ids)"
  let ?ranked = "sort_key (\<lambda>x. - snd x) ?scs"
  let ?pairs = "take (nat max_results) ?ranked"
  let ?res = "fst (search iter_order r ix q max_results)"
  have res: "?res = map (format_result ix) ?pairs"
    by (rule search_valid_closed [OF ord n])
  have ids: "set ?ids = set (candidate_doc_ids ix q)"
    using ord distinct_candidate_doc_ids [of ix q] by (simp add: valid_iter_order_def)
  have pairs_sub: "set ?pairs \<subseteq> set ?scs"
    using set_take_subset [of "nat max_results" ?ranked] by simp
  have len: "length ?res \<le> nat max_results" by (simp add: res)
  have entries: "\<forall>e \<in> set ?res. 0 < res_score e \<and> res_score e = ?sc (res_doc_id e)
         \<and> res_doc_id e \<in> set (candidate_doc_ids ix q)"
  proof
    fix e assume "e \<in> set ?res"
    then obtain p where p: "p \<in> set ?pairs" "e = format_result ix p" by (auto simp: res)
    with pairs_sub have "p \<in> set ?scs" by blast
    then have "0 < snd p \<and> snd p = ?sc (fst p) \<and> fst p \<in> set ?ids" by auto
    with p ids show "0 < res_score e \<and> res_score e = ?sc (res_doc_id e)
         \<and> res_doc_id e \<in> set (candidate_doc_ids ix q)" by simp
  qed
  have excl: "\<forall>d. ?sc d \<le> 0 \<longrightarrow> d \<notin> res_doc_id ` set ?res"
    using entries by fastforce
  have "sorted (map (\<lambda>x. - snd x) ?ranked)" by (rule sorted_sort_key)
  then have "sorted_wrt (\<lambda>a b. snd b \<le> snd a) ?ranked"
    by (simp add: sorted_map)
  then have "sorted_wrt (\<lambda>a b. snd b \<le> snd a) ?pairs"
    by (rule sorted_wrt_take)
  then have srt: "sorted_wrt (\<lambda>a b. res_score b \<le> res_score a) ?res"
    by (simp add: res sorted_wrt_map)
  have ties: "\<forall>v. prefix (map res_doc_id (filter (\<lambda>e. res_score e = v) ?res))
         (filter (\<lambda>d. ?sc d = v) ?ids)"
  proof
    fix v
    have a: "map res_doc_id (filter (\<lambda>e. res_score e = v) ?res)
        = map fst (filter (\<lambda>p. snd p = v) ?pairs)"
      by (simp add: res filter_map comp_def)
    have b: "prefix (filter (\<lambda>p. snd p = v) ?pairs) (filter (\<lambda>p. snd p = v) ?ranked)"
      by (rule filter_take_prefix)
    have "filter (\<lambda>p. - snd p = - v) ?ranked = filter (\<lambda>p. - snd p = - v) ?scs"
      by (rule sort_key_stable)
    then have c: "filter (\<lambda>p. snd p = v) ?ranked = filter (\<lambda>p. snd p = v) ?scs"
      by simp
    have d: "map fst (filter (\<lambda>p. snd p = v) ?scs) = filter (\<lambda>d. ?sc d = v \<and> 0 < ?sc d) ?ids"
      by (simp add: filter_map comp_def conj_commute)
    have e: "prefix (filter (\<lambda>d. ?sc d = v \<and> 0 < ?sc d) ?ids) (filter (\<lambda>d. ?sc d = v) ?ids)"
    proof (cases "0 < v")
      case True
      then have "(\<lambda>d. ?sc d = v \<and> 0 < ?sc d) = (\<lambda>d. ?sc d = v)" by auto
      then show ?thesis by simp
    next
      case False
      then have "filter (\<lambda>d. ?sc d = v \<and> 0 < ?sc d) ?ids = []" by (auto simp: filter_empty_conv)
      then show ?thesis by simp
    qed
    from b have f: "prefix (map fst (filter (\<lambda>p. snd p = v) ?pairs))
        (map fst (filter (\<lambda>p. snd p = v) ?scs))"
      unfolding c by (rule map_mono_prefix)
    then have g: "prefix (map fst (filter (\<lambda>p. snd p = v) ?pairs))
        (filter (\<lambda>d. ?sc d = v \<and> 0 < ?sc d) ?ids)"
      unfolding d .
    from prefix_order.trans [OF g e]
    show "prefix (map res_doc_id (filter (\<lambda>e. res_score e = v) ?res))
         (filter (\<lambda>d. ?sc d = v) ?ids)"
      unfolding a .
  qed
  from len entries excl srt ties show ?thesis by blast
qed

lemma valid_iter_order_sort: "valid_iter_order sort"
  by (simp add: valid_iter_order_def)

text \<open>
  The claim as stated fails on the tie order, and on the size for a negative \<open>max_results\<close>.
  Three documents; \<open>python\<close> indexed once for document 2, then once for document 1. The
  documents are first met in the order 2, 1 and have the same score \<open>ln (3 / 2)\<close>. With a
  set enumerated in ascending order (as CPython enumerates the set of the small integers
  2 and 1) the result lists document 1 before document 2. With \<open>max_results = -1\<close> the
  slice \<open>ranked[:-1]\<close> returns one entry.
\<close>

theorem search_tie_order_counterexample:
  "valid_iter_order sort
   \<and> candidate_doc_ids
        (run_index_ops
          [AddDocument 1 [(''url'', PyStr ''doc1'')], AddDocument 2 [(''url'', PyStr ''doc2'')],
           AddDocument 3 [(''url'', PyStr ''doc3'')],
           IndexTerms 2 [''python''], IndexTerms 1 [''python'']])
        [''python''] = [2, 1]
   \<and> map res_doc_id (fst (search sort (init_ranker 2 (3 / 2))
        (run_index_ops
          [AddDocument 1 [(''url'', PyStr ''doc1'')], AddDocument 2 [(''url'', PyStr ''doc2'')],
           AddDocument 3 [(''url'', PyStr ''doc3'')],
           IndexTerms 2 [''python''], IndexTerms 1 [''python'']])
        [''python''] 20)) = [1, 2]
   \<and> map res_score (fst (search sort (init_ranker 2 (3 / 2))
        (run_index_ops
          [AddDocument 1 [(''url'', PyStr ''doc1'')], AddDocument 2 [(''url'', PyStr ''doc2'')],
           AddDocument 3 [(''url'', PyStr ''doc3'')],
           IndexTerms 2 [''python''], IndexTerms 1 [''python'']])
        [''python''] 20)) = [ln (3 / 2), ln (3 / 2)]
   \<and> \<not> int (length (fst (search sort (init_ranker 2 (3 / 2))
        (run_index_ops
          [AddDocument 1 [(''url'', PyStr ''doc1'')], AddDocument 2 [(''url'', PyStr ''doc2'')],
           AddDocument 3 [(''url'', PyStr ''doc3'')],
           IndexTerms 2 [''python''], IndexTerms 1 [''python'']])
        [''python''] (- 1)))) \<le> - 1"
proof -
  let ?ix = "run_index_ops
          [AddDocument 1 [(''url'', PyStr ''doc1'')], AddDocument 2 [(''url'', PyStr ''doc2'')],
           AddDocument 3 [(''url'', PyStr ''doc3'')],
           IndexTerms 2 [''python''], IndexTerms 1 [''python'']]"
  let ?r = "init_ranker 2 (3 / 2)"
  have ix: "?ix = \<lparr>index = [(''python'', [(2, 1, [0]), (1, 1, [0])])], document_count = 3,
      documents = [(IntKey 1, [(''url'', PyStr ''doc1'')]), (IntKey 2, [(''url'', PyStr ''doc2'')]),
                   (IntKey 3, [(''url'', PyStr ''doc3'')])]\<rparr>"
    by code_simp
  have cands: "candidate_doc_ids ?ix [''python''] = [2, 1]"
    by code_simp
  have pos: "0 < ln (3 / 2 :: real)" by simp
  have sc: "doc_score ?r ?ix [''python''] 1 = ln (3 / 2)"
           "doc_score ?r ?ix [''python''] 2 = ln (3 / 2)"
    unfolding ix
    by (simp_all add: doc_score_def score_document_def calculate_tf_def calculate_idf_def
          get_postings_def dict_get_def Let_def init_ranker_def title_or_empty_def lower_def)
  have res: "fst (search sort ?r ?ix [''python''] n) =
      map (format_result ?ix) (slice_to [(1, ln (3 / 2)), (2, ln (3 / 2))] n)" for n
    using pos by (simp add: search_closed cands sc)
  have a: "map res_doc_id (fst (search sort ?r ?ix [''python''] 20)) = [1, 2]"
    by (simp add: res slice_to_def)
  have b: "map res_score (fst (search sort ?r ?ix [''python''] 20)) = [ln (3 / 2), ln (3 / 2)]"
    by (simp add: res slice_to_def)
  have c: "\<not> int (length (fst (search sort ?r ?ix [''python''] (- 1)))) \<le> - 1"
    by (simp add: res slice_to_def)
  from valid_iter_order_sort cands a b c show ?thesis by blast
qed

text \<open>
  With frequency 2 for document 1 and \<open>max_results = 1\<close>, the one entry returned is
  document 1.
\<close>

theorem search_result_shape_witness:
  "map res_doc_id (fst (search sort (init_ranker 2 (3 / 2))
        (run_index_ops
          [AddDocument 1 [(''url'', PyStr ''doc1'')], AddDocument 2 [(''url'', PyStr ''doc2'')],
           AddDocument 3 [(''url'', PyStr ''doc3'')],
           IndexTerms 2 [''python''], IndexTerms 1 [''python'', ''python'']])
        [''python''] 1)) = [1]
   \<and> length (fst (search sort (init_ranker 2 (3 / 2))
        (run_index_ops
          [AddDocument 1 [(''url'', PyStr ''doc1'')], AddDocument 2 [(''url'', PyStr ''doc2'')],
           AddDocument 3 [(''url'', PyStr ''doc3'')],
           IndexTerms 2 [''python''], IndexTerms 1 [''python'', ''python'']])
        [''python''] 1)) \<le> 1"
proof -
  let ?ix = "run_index_ops
          [AddDocument 1 [(''url'', PyStr ''doc1'')], AddDocument 2 [(''url'', PyStr ''doc2'')],
           AddDocument 3 [(''url'', PyStr ''doc3'')],
           IndexTerms 2 [''python''], IndexTerms 1 [''python'', ''python'']]"
  let ?r = "init_ranker 2 (3 / 2)"
  have ix: "?ix = \<lparr>index = [(''python'', [(2, 1, [0]), (1, 2, [0, 1])])], document_count = 3,
      documents = [(IntKey 1, [(''url'', PyStr ''doc1'')]), (IntKey 2, [(''url'', PyStr ''doc2'')]),
                   (IntKey 3, [(''url'', PyStr ''doc3'')])]\<rparr>"
    by code_simp
  have cands: "candidate_doc_ids ?ix [''python''] = [2, 1]"
    by code_simp
  have pos: "0 < ln (3 / 2 :: real)" by simp
  have sc: "doc_score ?r ?ix [''python''] 1 = 2 * ln (3 / 2)"
           "doc_score ?r ?ix [''python''] 2 = ln (3 / 2)"
    unfolding ix
    by (simp_all add: doc_score_def score_document_def calculate_tf_def calculate_idf_def
          get_postings_def dict_get_def Let_def init_ranker_def title_or_empty_def lower_def)
  have res: "fst (search sort ?r ?ix [''python''] 1) =
      map (format_result ?ix) [(1, 2 * ln (3 / 2))]"
    using pos by (simp add: search_closed cands sc slice_to_def)
  have ids: "map res_doc_id (fst (search sort ?r ?ix [''python''] 1)) = [1]"
    by (simp add: res)
  have n: "(0::int) \<le> 1" by simp
  from search_result_shape [OF valid_iter_order_sort n, of ?r ?ix "[''python'']"] ids
  show ?thesis by simp
qed

end
